theory Spec2Isabelle
  imports Main
begin

section \<open>JavaScript values and strings\<close>

text \<open>
  The action strings and the capture groups of \<^verbatim>\<open>lib/action.js\<close> are JavaScript strings;
  an optional group that took no part in a match is \<^verbatim>\<open>undefined\<close>. A string is modelled
  as a \<open>string\<close> (a list of 8-bit characters, so the model covers the strings whose code
  units are below 256), and a value that is a string or \<^verbatim>\<open>undefined\<close> as a \<open>jsval\<close>.
  HOL equality on \<open>jsval\<close> is the strict equality \<^verbatim>\<open>===\<close> on these values.
\<close>

datatype jsval = Undefined | Str string

text \<open>String conversion, as a template literal \<^verbatim>\<open>`${v}`\<close> performs it.\<close>

fun to_string :: "jsval \<Rightarrow> string" where
  "to_string Undefined = ''undefined''"
| "to_string (Str s) = s"

text \<open>Reading an array by index: an index out of range yields \<^verbatim>\<open>undefined\<close>.\<close>

definition js_nth :: "jsval list \<Rightarrow> nat \<Rightarrow> jsval" where
  "js_nth xs i = (if i < length xs then xs ! i else Undefined)"

section \<open>Regular expressions\<close>

text \<open>
  The patterns of the registry are regular expression literals. Their syntax is embedded
  as a datatype and their meaning is the backtracking matcher of the ECMAScript
  specification: the matcher of a pattern maps a state (the end index, the rest of the
  input from there, the captures) to the list of the states it can end in, in the order in
  which backtracking tries them. The first element of the list is the match that is found.
  A capturing group carries its number (the position of its left parenthesis).
\<close>

datatype regex =
    Eps
  | Chr char
  | Dot
  | Bol
  | Eol
  | Seq regex regex
  | Alt regex regex
  | Opt regex
  | Star regex
  | Group nat regex

text \<open>
  \<^verbatim>\<open>r+\<close> runs \<open>r\<close> once and goes on as \<^verbatim>\<open>r*\<close> does. It is used for \<^verbatim>\<open>.+\<close> only, so
  there are no captures inside \<open>r\<close> to reset before the first round.
\<close>

definition one_or_more :: "regex \<Rightarrow> regex" where
  "one_or_more r = Seq r (Star r)"

text \<open>A run of literal characters, and a sequence of terms.\<close>

fun lit :: "string \<Rightarrow> regex" where
  "lit [] = Eps"
| "lit (c # cs) = Seq (Chr c) (lit cs)"

fun seqs :: "regex list \<Rightarrow> regex" where
  "seqs [] = Eps"
| "seqs (r # rs) = Seq r (seqs rs)"

text \<open>
  A regular expression object: the pattern and the \<^verbatim>\<open>i\<close> flag. The patterns of this
  program carry no \<^verbatim>\<open>g\<close>, \<^verbatim>\<open>y\<close> or \<^verbatim>\<open>m\<close> flag, so a regular expression object has no
  state (\<^verbatim>\<open>lastIndex\<close> stays 0), \<^verbatim>\<open>^\<close> stands for the start of the input and \<^verbatim>\<open>$\<close> for its end.
\<close>

record regexp =
  source :: regex
  ignoreCase :: bool

text \<open>
  Canonicalize of the ECMAScript specification, without the \<^verbatim>\<open>u\<close> flag: under \<^verbatim>\<open>i\<close> a
  character is compared by its upper case. On the characters \<open>a\<close> to \<open>z\<close> that is the
  letter 32 places before; a character from 128 on is never mapped below 128, so it
  never equals the canonical form of an ASCII character, which is all that the patterns
  of this program compare with.
\<close>

definition canonicalize :: "bool \<Rightarrow> char \<Rightarrow> char" where
  "canonicalize ic c =
     (if ic \<and> 97 \<le> (of_char c :: nat) \<and> (of_char c :: nat) \<le> 122
      then char_of ((of_char c :: nat) - 32) else c)"

text \<open>\<^verbatim>\<open>.\<close> matches every character but a line terminator (line feed, carriage return).\<close>

text \<open>Two strings that the matcher cannot tell apart: equal up to Canonicalize.\<close>

definition ci_eq :: "bool \<Rightarrow> string \<Rightarrow> string \<Rightarrow> bool" where
  "ci_eq ic u w = (map (canonicalize ic) u = map (canonicalize ic) w)"

definition first_is :: "bool \<Rightarrow> char \<Rightarrow> string \<Rightarrow> bool" where
  "first_is ic c s = (case s of [] \<Rightarrow> False | d # _ \<Rightarrow> canonicalize ic d = canonicalize ic c)"

definition is_line_terminator :: "char \<Rightarrow> bool" where
  "is_line_terminator c = (c = CHR 0x0A \<or> c = CHR 0x0D)"

text \<open>The numbers of the capturing groups inside a pattern.\<close>

fun groups :: "regex \<Rightarrow> nat list" where
  "groups (Seq a b) = groups a @ groups b"
| "groups (Alt a b) = groups a @ groups b"
| "groups (Opt a) = groups a"
| "groups (Star a) = groups a"
| "groups (Group k a) = k # groups a"
| "groups _ = []"

text \<open>A repetition resets the captures of the groups inside it before each round.\<close>

fun clear :: "nat list \<Rightarrow> jsval list \<Rightarrow> jsval list" where
  "clear [] cs = cs"
| "clear (k # ks) cs = clear ks (cs[k := Undefined])"

type_synonym mstate = "nat \<times> string \<times> jsval list"

text \<open>
  The matcher. A round of a repetition that consumes nothing is given up (the end index
  only moves forward, so ``the end index differs'' is ``the rest is shorter'').
\<close>

fun ms :: "bool \<Rightarrow> regex \<Rightarrow> mstate \<Rightarrow> mstate list" where
  "ms ic Eps x = [x]"
| "ms ic (Chr c) (p, r, cs) =
     (case r of
        [] \<Rightarrow> []
      | d # r' \<Rightarrow> if canonicalize ic d = canonicalize ic c then [(Suc p, r', cs)] else [])"
| "ms ic Dot (p, r, cs) =
     (case r of
        [] \<Rightarrow> []
      | d # r' \<Rightarrow> if is_line_terminator d then [] else [(Suc p, r', cs)])"
| "ms ic Bol (p, r, cs) = (if p = 0 then [(p, r, cs)] else [])"
| "ms ic Eol (p, r, cs) = (if r = [] then [(p, r, cs)] else [])"
| "ms ic (Seq a b) x = concat (map (ms ic b) (ms ic a x))"
| "ms ic (Alt a b) x = ms ic a x @ ms ic b x"
| "ms ic (Group k a) (p, r, cs) =
     map (\<lambda>(q, r', cs'). (q, r', cs'[k := Str (take (q - p) r)])) (ms ic a (p, r, cs))"
| "ms ic (Opt a) (p, r, cs) =
     filter (\<lambda>y. length (fst (snd y)) < length r) (ms ic a (p, r, clear (groups a) cs))
     @ [(p, r, cs)]"
| "ms ic (Star a) (p, r, cs) =
     concat (map (\<lambda>y. if length (fst (snd y)) < length r then ms ic (Star a) y else [])
                 (ms ic a (p, r, clear (groups a) cs)))
     @ [(p, r, cs)]"

text \<open>
  \<^verbatim>\<open>RegExp.prototype.exec\<close> for a pattern without the \<^verbatim>\<open>g\<close> and \<^verbatim>\<open>y\<close> flags: the match
  is tried at index 0, then at 1, and so on up to the length of the input. The result is
  \<^verbatim>\<open>null\<close> (\<open>None\<close>) or the array of the whole match followed by the captures.
\<close>

fun ngroups :: "nat list \<Rightarrow> nat" where
  "ngroups [] = 0"
| "ngroups (k # ks) = max k (ngroups ks)"

definition attempt :: "bool \<Rightarrow> regex \<Rightarrow> nat \<Rightarrow> string \<Rightarrow> jsval list option" where
  "attempt ic re p r =
     (case ms ic re (p, r, replicate (Suc (ngroups (groups re))) Undefined) of
        [] \<Rightarrow> None
      | (q, r', cs) # _ \<Rightarrow> Some (cs[0 := Str (take (q - p) r)]))"

fun search :: "bool \<Rightarrow> regex \<Rightarrow> nat \<Rightarrow> string \<Rightarrow> jsval list option" where
  "search ic re p [] = attempt ic re p []"
| "search ic re p (c # r) =
     (case attempt ic re p (c # r) of
        None \<Rightarrow> search ic re (Suc p) r
      | Some m \<Rightarrow> Some m)"

definition exec :: "regexp \<Rightarrow> string \<Rightarrow> jsval list option" where
  "exec re s = search (ignoreCase re) (source re) 0 s"

text \<open>\<^verbatim>\<open>re.test(s)\<close> and \<^verbatim>\<open>s.match(re)\<close>.\<close>

definition test :: "regexp \<Rightarrow> string \<Rightarrow> bool" where
  "test re s = (exec re s \<noteq> None)"

definition str_match :: "string \<Rightarrow> regexp \<Rightarrow> jsval list option" where
  "str_match s re = exec re s"

section \<open>The page, the log and the errors\<close>

text \<open>
  The page object and the logger are injected. What the program does to them is recorded
  as a trace of events: a call of a page method with its arguments, or a message given to
  \<^verbatim>\<open>options.log.debug\<close>. The two functions that the program hands to the page
  (the one of check-field to \<^verbatim>\<open>page.evaluate\<close>, the one of wait-for-url to
  \<^verbatim>\<open>page.waitForFunction\<close>) close over nothing, so a call names them by a tag;
  \<open>check_fn\<close> and \<open>wait_fn\<close> below are their bodies. The options argument of
  \<^verbatim>\<open>page.waitForFunction\<close> is always the empty object and is left out of the call. The
  logger is a sink: \<^verbatim>\<open>options.log.debug\<close> records the message and returns.
\<close>

datatype pagefn = CheckFn | WaitFn

datatype call =
    Click jsval
  | Focus jsval
  | Type jsval
  | Evaluate pagefn jsval bool
  | WaitForFunction pagefn jsval jsval bool

datatype event = Debug string | Call call

text \<open>
  The page decides, from what has happened so far and the call, whether the promise of
  the call resolves (\<open>None\<close>) or rejects with an error object of its own (\<open>Some e\<close>).
\<close>

type_synonym 'e page = "event list \<Rightarrow> call \<Rightarrow> 'e option"

text \<open>
  An error seen by the caller is an error object of the page or of a handler, passed
  on as it is (\<open>Thrown\<close>), an error made here by \<^verbatim>\<open>new Error(message)\<close>, or the
  \<^verbatim>\<open>TypeError\<close> of reading an index of \<^verbatim>\<open>null\<close>.
\<close>

datatype 'e js_error = Thrown 'e | NewError string | TypeError

type_synonym ('e, 'a) io = "event list \<Rightarrow> ('e js_error + 'a) \<times> event list"

definition page_call :: "'e page \<Rightarrow> call \<Rightarrow> event list \<Rightarrow> ('e + unit) \<times> event list" where
  "page_call page c tr =
     (case page tr c of
        None \<Rightarrow> (Inr (), tr @ [Call c])
      | Some e \<Rightarrow> (Inl e, tr @ [Call c]))"

definition log_debug :: "string \<Rightarrow> event list \<Rightarrow> event list" where
  "log_debug msg tr = tr @ [Debug msg]"

section \<open>The registry\<close>

type_synonym 'e handler = "'e page \<Rightarrow> jsval list option \<Rightarrow> ('e, unit) io"

record 'e action =
  name :: string
  match :: regexp
  run :: "'e handler"

definition no_element_msg :: "jsval \<Rightarrow> string" where
  "no_element_msg selector =
     ''Failed action: no element matching selector \"'' @ to_string selector @ ''\"''"

text \<open>\<^verbatim>\<open>/^click( element)? (.+)$/i\<close>\<close>

definition click_re :: regexp where
  "click_re = \<lparr>source = seqs [Bol, lit ''click'', Opt (Group 1 (lit '' element'')),
       Chr CHR '' '', Group 2 (one_or_more Dot), Eol], ignoreCase = True\<rparr>"

definition click_run :: "'e handler" where
  "click_run page matches tr =
     (case matches of
        None \<Rightarrow> (Inl TypeError, tr)
      | Some m \<Rightarrow>
          (let selector = js_nth m 2 in
           case page_call page (Click selector) tr of
             (Inl error, tr1) \<Rightarrow> (Inl (NewError (no_element_msg selector)), tr1)
           | (Inr u, tr1) \<Rightarrow> (Inr (), tr1)))"

text \<open>\<^verbatim>\<open>/^set( field)? (.+) to (.+)$/i\<close>\<close>

definition set_re :: regexp where
  "set_re = \<lparr>source = seqs [Bol, lit ''set'', Opt (Group 1 (lit '' field'')),
       Chr CHR '' '', Group 2 (one_or_more Dot), lit '' to '', Group 3 (one_or_more Dot), Eol],
     ignoreCase = True\<rparr>"

definition set_run :: "'e handler" where
  "set_run page matches tr =
     (case matches of
        None \<Rightarrow> (Inl TypeError, tr)
      | Some m \<Rightarrow>
          (let selector = js_nth m 2; value = js_nth m 3 in
           case page_call page (Focus selector) tr of
             (Inl error, tr1) \<Rightarrow> (Inl (NewError (no_element_msg selector)), tr1)
           | (Inr u, tr1) \<Rightarrow>
               (case page_call page (Type value) tr1 of
                  (Inl error, tr2) \<Rightarrow> (Inl (NewError (no_element_msg selector)), tr2)
                | (Inr u, tr2) \<Rightarrow> (Inr (), tr2))))"

text \<open>\<^verbatim>\<open>/^(check|uncheck)( field)? (.+)$/i\<close>\<close>

definition check_re :: regexp where
  "check_re = \<lparr>source = seqs [Bol, Group 1 (Alt (lit ''check'') (lit ''uncheck'')),
       Opt (Group 2 (lit '' field'')), Chr CHR '' '', Group 3 (one_or_more Dot), Eol],
     ignoreCase = True\<rparr>"

definition check_run :: "'e handler" where
  "check_run page matches tr =
     (case matches of
        None \<Rightarrow> (Inl TypeError, tr)
      | Some m \<Rightarrow>
          (let checked = (js_nth m 1 \<noteq> Str ''uncheck''); selector = js_nth m 3 in
           case page_call page (Evaluate CheckFn selector checked) tr of
             (Inl error, tr1) \<Rightarrow> (Inl (NewError (no_element_msg selector)), tr1)
           | (Inr u, tr1) \<Rightarrow> (Inr (), tr1)))"

text \<open>
  The function that check-field evaluates in the page: \<open>querySelector\<close> is the lookup of
  the document; the result is the rejection, or the element found with the value that its
  \<^verbatim>\<open>checked\<close> property is set to.
\<close>

definition check_fn :: "(jsval \<Rightarrow> 'el option) \<Rightarrow> jsval \<Rightarrow> bool \<Rightarrow> string + 'el \<times> bool" where
  "check_fn querySelector selector checked =
     (case querySelector selector of
        None \<Rightarrow> Inl ''No element found''
      | Some target \<Rightarrow> Inr (target, checked))"

text \<open>\<^verbatim>\<open>/^wait for (fragment|hash|path|url)( to (not )?be)? (.+)$/i\<close>\<close>

definition wait_re :: regexp where
  "wait_re = \<lparr>source = seqs [Bol, lit ''wait for '',
       Group 1 (Alt (lit ''fragment'') (Alt (lit ''hash'') (Alt (lit ''path'') (lit ''url'')))),
       Opt (Group 2 (seqs [lit '' to '', Opt (Group 3 (lit ''not '')), lit ''be''])),
       Chr CHR '' '', Group 4 (one_or_more Dot), Eol],
     ignoreCase = True\<rparr>"

definition wait_property :: "jsval \<Rightarrow> string" where
  "wait_property subject =
     (if subject = Str ''fragment'' \<or> subject = Str ''hash'' then ''hash''
      else if subject = Str ''path'' then ''pathname''
      else ''href'')"

definition wait_run :: "'e handler" where
  "wait_run page matches tr =
     (case matches of
        None \<Rightarrow> (Inl TypeError, tr)
      | Some m \<Rightarrow>
          (let expectedValue = js_nth m 4;
               negated = (js_nth m 3 \<noteq> Undefined);
               subject = js_nth m 1;
               property = wait_property subject in
           case page_call page (WaitForFunction WaitFn (Str property) expectedValue negated) tr of
             (Inl error, tr1) \<Rightarrow> (Inl (Thrown error), tr1)
           | (Inr u, tr1) \<Rightarrow> (Inr (), tr1)))"

text \<open>
  The function that wait-for-url hands to \<^verbatim>\<open>page.waitForFunction\<close>; \<open>location\<close>
  is \<^verbatim>\<open>window.location\<close>, read by property name.
\<close>

definition wait_fn :: "(jsval \<Rightarrow> jsval) \<Rightarrow> jsval \<Rightarrow> jsval \<Rightarrow> bool \<Rightarrow> bool" where
  "wait_fn location property expectedValue negated =
     (if negated then location property \<noteq> expectedValue
      else location property = expectedValue)"

definition actions :: "'e action list" where
  "actions =
     [\<lparr>name = ''click-element'', match = click_re, run = click_run\<rparr>,
      \<lparr>name = ''set-field-value'', match = set_re, run = set_run\<rparr>,
      \<lparr>name = ''check-field'', match = check_re, run = check_run\<rparr>,
      \<lparr>name = ''wait-for-url'', match = wait_re, run = wait_run\<rparr>]"

section \<open>The dispatcher\<close>

text \<open>
  The registry \<^verbatim>\<open>module.exports.actions\<close> can be replaced by the host, so it is a
  parameter. The browser argument is passed on and used by no built-in handler; it is left
  out. The completion message holds a check mark (U+2714 U+FE0E), written here as its
  UTF-8 bytes.
\<close>

definition unresolved_msg :: "string \<Rightarrow> string" where
  "unresolved_msg actionString = ''Failed action: \"'' @ actionString @ ''\" cannot be resolved''"

definition running_msg :: "string \<Rightarrow> string" where
  "running_msg actionString = ''Running action: '' @ actionString"

definition complete_msg :: string where
  "complete_msg = ''  '' @ [CHR 0xE2, CHR 0x9C, CHR 0x94, CHR 0xEF, CHR 0xB8, CHR 0x8E]
     @ '' action complete''"

definition runAction :: "'e action list \<Rightarrow> 'e page \<Rightarrow> string \<Rightarrow> ('e, unit) io" where
  "runAction acts page actionString tr =
     (case find (\<lambda>foundAction. test (match foundAction) actionString) acts of
        None \<Rightarrow> (Inl (NewError (unresolved_msg actionString)), tr)
      | Some action \<Rightarrow>
          (case run action page (str_match actionString (match action))
                  (log_debug (running_msg actionString) tr) of
             (Inl error, tr1) \<Rightarrow> (Inl error, tr1)
           | (Inr u, tr1) \<Rightarrow> (Inr (), log_debug complete_msg tr1)))"

definition isValidAction :: "'e action list \<Rightarrow> string \<Rightarrow> bool" where
  "isValidAction acts actionString =
     list_ex (\<lambda>foundAction. test (match foundAction) actionString) acts"

text \<open>
  \<open>isValidAction\<close> above is the value that \<^verbatim>\<open>isValidAction(actionString)\<close> returns, as a
  function of the registry. The call itself happens in the world of the program: the
  module holds the registry in \<^verbatim>\<open>module.exports.actions\<close>, and whatever a call does to the
  page or the logger shows in the trace. \<open>isValidAction_call\<close> is the same source
  function read as a step on that world, one that may throw: \<^verbatim>\<open>Array.prototype.some\<close> calls
  the callback on the elements in order, stops at the first that returns true, and an error
  of the callback ends the call; \<^verbatim>\<open>RegExp.prototype.test\<close> on a string returns a boolean.
  The only state of a pattern is its \<^verbatim>\<open>lastIndex\<close>; for a pattern without the \<^verbatim>\<open>g\<close> and
  \<^verbatim>\<open>y\<close> flags the result does not depend on it and it stays 0, so the test leaves the
  world as it is.
\<close>

record 'e world =
  registry :: "'e action list"
  trace :: "event list"

fun js_some :: "('a \<Rightarrow> 'w \<Rightarrow> ('x + bool) \<times> 'w) \<Rightarrow> 'a list \<Rightarrow> 'w \<Rightarrow> ('x + bool) \<times> 'w" where
  "js_some f [] w = (Inr False, w)"
| "js_some f (x # xs) w =
     (case f x w of
        (Inl error, w1) \<Rightarrow> (Inl error, w1)
      | (Inr b, w1) \<Rightarrow> if b then (Inr True, w1) else js_some f xs w1)"

definition regexp_test :: "regexp \<Rightarrow> string \<Rightarrow> 'w \<Rightarrow> ('x + bool) \<times> 'w" where
  "regexp_test re s w = (Inr (test re s), w)"

definition isValidAction_call :: "string \<Rightarrow> 'e world \<Rightarrow> ('e js_error + bool) \<times> 'e world" where
  "isValidAction_call actionString w =
     js_some (\<lambda>foundAction. regexp_test (match foundAction) actionString) (registry w) w"

text \<open>
  The registry can be replaced; the test suite does so (patterns \<^verbatim>\<open>/^foo/\<close> and
  \<^verbatim>\<open>/^bar/\<close>), with handlers that only record that they ran. The handlers of
  \<open>stub_registry\<close> write their name and the whole match they were given to the log, and
  its last two patterns, \<^verbatim>\<open>/^bar/\<close> and \<^verbatim>\<open>/^ba/\<close>, both match the string
  \<^verbatim>\<open>bar 123\<close>. \<open>stub_reject\<close> is a handler that rejects with a given error object.
\<close>

definition stub_run :: "string \<Rightarrow> 'e handler" where
  "stub_run n page matches tr =
     (Inr (), tr @ [Debug (n @ '': '' @
        (case matches of None \<Rightarrow> ''null'' | Some m \<Rightarrow> to_string (js_nth m 0)))])"

definition stub_reject :: "'e \<Rightarrow> 'e handler" where
  "stub_reject e page matches tr = (Inl (Thrown e), tr)"

definition stub_foo :: "'e action" where
  "stub_foo = \<lparr>name = ''foo'', match = \<lparr>source = Seq Bol (lit ''foo''), ignoreCase = False\<rparr>,
     run = stub_run ''foo''\<rparr>"

definition stub_bar :: "'e action" where
  "stub_bar = \<lparr>name = ''bar'', match = \<lparr>source = Seq Bol (lit ''bar''), ignoreCase = False\<rparr>,
     run = stub_run ''bar''\<rparr>"

definition stub_ba :: "'e action" where
  "stub_ba = \<lparr>name = ''ba'', match = \<lparr>source = Seq Bol (lit ''ba''), ignoreCase = False\<rparr>,
     run = stub_run ''ba''\<rparr>"

definition stub_registry :: "'e action list" where
  "stub_registry = [stub_foo, stub_bar, stub_ba]"

section \<open>Facts about the matcher\<close>

text \<open>
  What the matcher of each construct can end in, as a set: a state is reached from
  \<open>(p, r, cs)\<close> by consuming a prefix \<open>u\<close> of the rest \<open>r\<close>.
\<close>

lemma in_ms_Seq: "y \<in> set (ms ic (Seq a b) x) \<longleftrightarrow>
   (\<exists>p r cs. (p, r, cs) \<in> set (ms ic a x) \<and> y \<in> set (ms ic b (p, r, cs)))"
  by auto

lemma in_ms_Alt: "y \<in> set (ms ic (Alt a b) x) \<longleftrightarrow> y \<in> set (ms ic a x) \<or> y \<in> set (ms ic b x)"
  by auto

lemma in_ms_Chr: "y \<in> set (ms ic (Chr c) (p, r, cs)) \<longleftrightarrow>
   (\<exists>d r'. r = d # r' \<and> canonicalize ic d = canonicalize ic c \<and> y = (Suc p, r', cs))"
  by (auto split: list.splits)

lemma in_ms_lit: "y \<in> set (ms ic (lit w) (p, r, cs)) \<longleftrightarrow>
   (\<exists>u r'. r = u @ r' \<and> ci_eq ic u w \<and> y = (p + length u, r', cs))"
  unfolding ci_eq_def
proof (induction w arbitrary: p r)
  case Nil
  then show ?case by auto
next
  case (Cons c w)
  show ?case
  proof
    assume "y \<in> set (ms ic (lit (c # w)) (p, r, cs))"
    then obtain d r1 where r: "r = d # r1" and d: "canonicalize ic d = canonicalize ic c"
      and y: "y \<in> set (ms ic (lit w) (Suc p, r1, cs))"
      by (auto split: list.splits if_splits)
    from y Cons.IH obtain u r' where "r1 = u @ r'" "map (canonicalize ic) u = map (canonicalize ic) w"
      "y = (Suc p + length u, r', cs)" by blast
    with r d show "\<exists>u r'. r = u @ r' \<and> map (canonicalize ic) u = map (canonicalize ic) (c # w) \<and> y = (p + length u, r', cs)"
      by (intro exI[of _ "d # u"] exI[of _ r']) simp
  next
    assume "\<exists>u r'. r = u @ r' \<and> map (canonicalize ic) u = map (canonicalize ic) (c # w) \<and> y = (p + length u, r', cs)"
    then obtain u r' where r: "r = u @ r'" and u: "map (canonicalize ic) u = map (canonicalize ic) (c # w)"
      and y: "y = (p + length u, r', cs)" by blast
    from u obtain d u1 where u1: "u = d # u1" "canonicalize ic d = canonicalize ic c"
      "map (canonicalize ic) u1 = map (canonicalize ic) w" by (cases u) auto
    have "y \<in> set (ms ic (lit w) (Suc p, u1 @ r', cs))"
      using Cons.IH[of "Suc p" "u1 @ r'"] u1 y by auto
    with r u1 show "y \<in> set (ms ic (lit (c # w)) (p, r, cs))" by simp
  qed
qed

lemma ms_star_dot_Nil: "ms ic (Star Dot) (p, [], cs) = [(p, [], cs)]"
  by simp

lemma ms_star_dot_Cons: "ms ic (Star Dot) (p, d # r, cs) =
   (if is_line_terminator d then [] else ms ic (Star Dot) (Suc p, r, cs)) @ [(p, d # r, cs)]"
  by simp

declare ms.simps(10) [simp del]

lemma in_ms_star_dot: "y \<in> set (ms ic (Star Dot) (p, r, cs)) \<longleftrightarrow>
   (\<exists>u r'. r = u @ r' \<and> (\<forall>c\<in>set u. \<not> is_line_terminator c) \<and> y = (p + length u, r', cs))"
proof (induction r arbitrary: p)
  case Nil
  then show ?case by (auto simp: ms_star_dot_Nil)
next
  case (Cons d r)
  show ?case
  proof
    assume "y \<in> set (ms ic (Star Dot) (p, d # r, cs))"
    then consider "\<not> is_line_terminator d" "y \<in> set (ms ic (Star Dot) (Suc p, r, cs))" | "y = (p, d # r, cs)"
      unfolding ms_star_dot_Cons by (auto split: if_splits)
    then show "\<exists>u r'. d # r = u @ r' \<and> (\<forall>c\<in>set u. \<not> is_line_terminator c) \<and> y = (p + length u, r', cs)"
    proof cases
      case 1
      with Cons.IH obtain u r' where "r = u @ r'" "\<forall>c\<in>set u. \<not> is_line_terminator c" "y = (Suc p + length u, r', cs)"
        by blast
      with 1 show ?thesis by (intro exI[of _ "d # u"] exI[of _ r']) simp
    next
      case 2
      then show ?thesis by (intro exI[of _ "[]"] exI[of _ "d # r"]) simp
    qed
  next
    assume "\<exists>u r'. d # r = u @ r' \<and> (\<forall>c\<in>set u. \<not> is_line_terminator c) \<and> y = (p + length u, r', cs)"
    then obtain u r' where u: "d # r = u @ r'" "\<forall>c\<in>set u. \<not> is_line_terminator c" "y = (p + length u, r', cs)"
      by blast
    show "y \<in> set (ms ic (Star Dot) (p, d # r, cs))"
    proof (cases u)
      case Nil
      with u show ?thesis unfolding ms_star_dot_Cons by simp
    next
      case (Cons e u1)
      with u have "e = d" "r = u1 @ r'" "\<not> is_line_terminator d" "\<forall>c\<in>set u1. \<not> is_line_terminator c" by auto
      moreover from this have "y \<in> set (ms ic (Star Dot) (Suc p, r, cs))"
        unfolding Cons.IH[of "Suc p"] using u Cons by (intro exI[of _ u1] exI[of _ r']) simp
      ultimately show ?thesis unfolding ms_star_dot_Cons by simp
    qed
  qed
qed

lemma in_ms_one_or_more_dot: "y \<in> set (ms ic (one_or_more Dot) (p, r, cs)) \<longleftrightarrow>
   (\<exists>u r'. r = u @ r' \<and> u \<noteq> [] \<and> (\<forall>c\<in>set u. \<not> is_line_terminator c) \<and> y = (p + length u, r', cs))"
proof
  assume "y \<in> set (ms ic (one_or_more Dot) (p, r, cs))"
  then obtain d r1 where r: "r = d # r1" "\<not> is_line_terminator d" and y: "y \<in> set (ms ic (Star Dot) (Suc p, r1, cs))"
    unfolding one_or_more_def by (auto split: list.splits if_splits simp del: in_ms_Seq)
  from y obtain u r' where "r1 = u @ r'" "\<forall>c\<in>set u. \<not> is_line_terminator c" "y = (Suc p + length u, r', cs)"
    unfolding in_ms_star_dot by blast
  with r show "\<exists>u r'. r = u @ r' \<and> u \<noteq> [] \<and> (\<forall>c\<in>set u. \<not> is_line_terminator c) \<and> y = (p + length u, r', cs)"
    by (intro exI[of _ "d # u"] exI[of _ r']) simp
next
  assume "\<exists>u r'. r = u @ r' \<and> u \<noteq> [] \<and> (\<forall>c\<in>set u. \<not> is_line_terminator c) \<and> y = (p + length u, r', cs)"
  then obtain u r' where u: "r = u @ r'" "u \<noteq> []" "\<forall>c\<in>set u. \<not> is_line_terminator c" "y = (p + length u, r', cs)"
    by blast
  then obtain d u1 where u1: "u = d # u1" by (cases u) auto
  have "y \<in> set (ms ic (Star Dot) (Suc p, u1 @ r', cs))"
    unfolding in_ms_star_dot using u u1 by auto
  with u u1 show "y \<in> set (ms ic (one_or_more Dot) (p, r, cs))"
    unfolding one_or_more_def by simp
qed

declare lit.simps [simp del]

lemma in_ms_Bol: "y \<in> set (ms ic Bol (p, r, cs)) \<longleftrightarrow> p = 0 \<and> y = (p, r, cs)"
  by auto

lemma in_ms_Eol: "y \<in> set (ms ic Eol (p, r, cs)) \<longleftrightarrow> r = [] \<and> y = (p, r, cs)"
  by auto

lemma in_ms_Eps: "y \<in> set (ms ic Eps x) \<longleftrightarrow> y = x"
  by auto

lemma in_ms_Group: "y \<in> set (ms ic (Group k a) (p, r, cs)) \<longleftrightarrow>
   (\<exists>q r' cs'. (q, r', cs') \<in> set (ms ic a (p, r, cs)) \<and> y = (q, r', cs'[k := Str (take (q - p) r)]))"
  by (auto simp: image_iff) force

lemma in_ms_Opt: "y \<in> set (ms ic (Opt a) (p, r, cs)) \<longleftrightarrow>
   (y \<in> set (ms ic a (p, r, clear (groups a) cs)) \<and> length (fst (snd y)) < length r) \<or> y = (p, r, cs)"
  by auto

lemma groups_lit: "groups (lit w) = []"
  by (induction w) (simp_all add: lit.simps)

lemma attempt_Some: "attempt ic re p r = Some m \<Longrightarrow>
  \<exists>q r' cs. (q, r', cs) \<in> set (ms ic re (p, r, replicate (Suc (ngroups (groups re))) Undefined))
     \<and> m = cs[0 := Str (take (q - p) r)]"
  unfolding attempt_def by (auto split: list.splits)

lemma attempt_Bol: "attempt ic (Seq Bol re) (Suc p) r = None"
  unfolding attempt_def by simp

lemma search_Bol: "search ic (Seq Bol re) (Suc p) r = None"
  by (induction r arbitrary: p) (simp_all add: attempt_Bol)

lemma exec_Bol: "source re = Seq Bol a \<Longrightarrow> exec re s = attempt (ignoreCase re) (source re) 0 s"
  unfolding exec_def by (cases s) (auto simp: search_Bol split: option.splits)

lemma ci_eq_first: "ci_eq ic u (c # w) \<Longrightarrow> first_is ic c (u @ r)"
  unfolding ci_eq_def first_is_def by (cases u) auto

lemmas in_ms = in_ms_Seq in_ms_Alt in_ms_Chr in_ms_lit in_ms_one_or_more_dot in_ms_Bol in_ms_Eol in_ms_Eps
  in_ms_Group in_ms_Opt

declare ms.simps [simp del]

text \<open>
  The end index and the rest of the input move together and only forward, so the test
  ``the rest is shorter'' in the matcher of a repetition is the test ``the end index
  differs'' of the ECMAScript specification.
\<close>

lemma ms_forward:
  "y \<in> set (ms ic a x) \<Longrightarrow> \<exists>u. fst (snd x) = u @ fst (snd y) \<and> fst y = fst x + length u"
proof (induction ic a x arbitrary: y rule: ms.induct)
  case (1 ic x)
  then show ?case by (simp add: ms.simps)
next
  case (2 ic c p r cs)
  then show ?case by (auto simp: ms.simps split: list.splits if_splits)
next
  case (3 ic p r cs)
  then show ?case by (auto simp: ms.simps split: list.splits if_splits)
next
  case (4 ic p r cs)
  then show ?case by (auto simp: ms.simps split: if_splits)
next
  case (5 ic p r cs)
  then show ?case by (auto simp: ms.simps split: if_splits)
next
  case (6 ic a b x)
  from "6.prems" obtain z where z: "z \<in> set (ms ic a x)" and y: "y \<in> set (ms ic b z)"
    by (auto simp: ms.simps)
  from "6.IH"(1)[OF z] obtain u where u: "fst (snd x) = u @ fst (snd z)" "fst z = fst x + length u" by blast
  from "6.IH"(2)[OF z y] obtain v where v: "fst (snd z) = v @ fst (snd y)" "fst y = fst z + length v" by blast
  from u v show ?case by (intro exI[of _ "u @ v"]) simp
next
  case (7 ic a b x)
  from "7.prems" have "y \<in> set (ms ic a x) \<or> y \<in> set (ms ic b x)" by (simp add: ms.simps)
  with "7.IH" show ?case by blast
next
  case (8 ic k a p r cs)
  then show ?case by (fastforce simp: ms.simps)
next
  case (9 ic a p r cs)
  then show ?case by (fastforce simp: ms.simps)
next
  case (10 ic a p r cs)
  from "10.prems" consider "y = (p, r, cs)"
    | z where "z \<in> set (ms ic a (p, r, clear (groups a) cs))" "length (fst (snd z)) < length r"
        "y \<in> set (ms ic (Star a) z)"
    by (auto simp: ms.simps split: if_splits)
  then show ?case
  proof cases
    case 1
    then show ?thesis by simp
  next
    case 2
    from "10.IH"(1)[OF 2(1)] obtain u where u: "r = u @ fst (snd z)" "fst z = p + length u" by auto
    from "10.IH"(2)[OF 2(1) 2(2) 2(3)] obtain v where v: "fst (snd z) = v @ fst (snd y)" "fst y = fst z + length v"
      by blast
    from u v show ?thesis by (intro exI[of _ "u @ v"]) simp
  qed
qed

lemma ms_end_index_differs:
  "y \<in> set (ms ic a (p, r, cs)) \<Longrightarrow> fst y \<noteq> p \<longleftrightarrow> length (fst (snd y)) < length r"
  using ms_forward[of y ic a "(p, r, cs)"] by auto

section \<open>What a match of each built-in pattern looks like\<close>

text \<open>
  A match of a built-in pattern splits the command string into the pieces that the terms
  of the pattern consumed, and the captures are those pieces. The literal words are
  matched up to letter case; the captures keep the letters of the command string.
\<close>

lemma wait_init: "replicate (Suc (ngroups (groups (source wait_re)))) Undefined =
    [Undefined, Undefined, Undefined, Undefined, Undefined]"
  by code_simp

lemma wait_src: "source wait_re = Seq Bol (seqs [lit ''wait for '',
       Group 1 (Alt (lit ''fragment'') (Alt (lit ''hash'') (Alt (lit ''path'') (lit ''url'')))),
       Opt (Group 2 (seqs [lit '' to '', Opt (Group 3 (lit ''not '')), lit ''be''])),
       Chr CHR '' '', Group 4 (one_or_more Dot), Eol])" "ignoreCase wait_re = True"
  by (simp_all add: wait_re_def)

lemma wait_re_sound:
  assumes "str_match s wait_re = Some m"
  shows "\<exists>w subject q d v g2 g3.
     s = w @ subject @ q @ d # v \<and> m = [Str s, Str subject, g2, g3, Str v] \<and>
     ci_eq True w ''wait for '' \<and>
     (ci_eq True subject ''fragment'' \<or> ci_eq True subject ''hash'' \<or> ci_eq True subject ''path''
        \<or> ci_eq True subject ''url'') \<and>
     (q = [] \<and> g2 = Undefined \<and> g3 = Undefined \<or>
      g2 = Str q \<and> (\<exists>t n b. q = t @ n @ b \<and> ci_eq True t '' to '' \<and> ci_eq True b ''be'' \<and>
         (n = [] \<and> g3 = Undefined \<or> g3 = Str n \<and> ci_eq True n ''not ''))) \<and>
     canonicalize True d = canonicalize True CHR '' '' \<and> v \<noteq> [] \<and> (\<forall>c\<in>set v. \<not> is_line_terminator c)"
proof -
  have "attempt True (source wait_re) 0 s = Some m"
    using assms exec_Bol[OF wait_src(1), of s] by (simp add: str_match_def wait_src(2))
  from attempt_Some[OF this] obtain q r' cs where
    y: "(q, r', cs) \<in> set (ms True (source wait_re) (0, s, [Undefined, Undefined, Undefined, Undefined, Undefined]))"
    and m: "m = cs[0 := Str (take q s)]"
    unfolding wait_init by auto
  from y m show ?thesis
    unfolding wait_src
    by (simp add: in_ms groups_lit) (elim exE conjE disjE; simp; blast?)
qed

lemma test_Some: "test re s \<Longrightarrow> \<exists>m. str_match s re = Some m"
  unfolding test_def str_match_def by auto

lemma click_init: "replicate (Suc (ngroups (groups (source click_re)))) Undefined =
    [Undefined, Undefined, Undefined]"
  by code_simp

lemma click_src: "source click_re = Seq Bol (seqs [lit ''click'', Opt (Group 1 (lit '' element'')),
       Chr CHR '' '', Group 2 (one_or_more Dot), Eol])" "ignoreCase click_re = True"
  by (simp_all add: click_re_def)

lemma click_re_sound:
  assumes "str_match s click_re = Some m"
  shows "\<exists>w q d v g1.
     s = w @ q @ d # v \<and> m = [Str s, g1, Str v] \<and> ci_eq True w ''click'' \<and>
     (q = [] \<and> g1 = Undefined \<or> g1 = Str q \<and> ci_eq True q '' element'') \<and>
     canonicalize True d = canonicalize True CHR '' '' \<and> v \<noteq> [] \<and> (\<forall>c\<in>set v. \<not> is_line_terminator c)"
proof -
  have "attempt True (source click_re) 0 s = Some m"
    using assms exec_Bol[OF click_src(1), of s] by (simp add: str_match_def click_src(2))
  from attempt_Some[OF this] obtain q r' cs where
    y: "(q, r', cs) \<in> set (ms True (source click_re) (0, s, [Undefined, Undefined, Undefined]))"
    and m: "m = cs[0 := Str (take q s)]"
    unfolding click_init by auto
  from y m show ?thesis
    unfolding click_src
    by (simp add: in_ms groups_lit) (elim exE conjE disjE; simp; blast?)
qed

lemma set_init: "replicate (Suc (ngroups (groups (source set_re)))) Undefined =
    [Undefined, Undefined, Undefined, Undefined]"
  by code_simp

lemma set_src: "source set_re = Seq Bol (seqs [lit ''set'', Opt (Group 1 (lit '' field'')),
       Chr CHR '' '', Group 2 (one_or_more Dot), lit '' to '', Group 3 (one_or_more Dot), Eol])"
    "ignoreCase set_re = True"
  by (simp_all add: set_re_def)

lemma set_re_sound:
  assumes "str_match s set_re = Some m"
  shows "\<exists>w q d sel t v g1.
     s = w @ q @ d # sel @ t @ v \<and> m = [Str s, g1, Str sel, Str v] \<and> ci_eq True w ''set'' \<and>
     (q = [] \<and> g1 = Undefined \<or> g1 = Str q \<and> ci_eq True q '' field'') \<and>
     canonicalize True d = canonicalize True CHR '' '' \<and>
     sel \<noteq> [] \<and> (\<forall>c\<in>set sel. \<not> is_line_terminator c) \<and> ci_eq True t '' to '' \<and>
     v \<noteq> [] \<and> (\<forall>c\<in>set v. \<not> is_line_terminator c)"
proof -
  have "attempt True (source set_re) 0 s = Some m"
    using assms exec_Bol[OF set_src(1), of s] by (simp add: str_match_def set_src(2))
  from attempt_Some[OF this] obtain q r' cs where
    y: "(q, r', cs) \<in> set (ms True (source set_re) (0, s, [Undefined, Undefined, Undefined, Undefined]))"
    and m: "m = cs[0 := Str (take q s)]"
    unfolding set_init by auto
  from y m show ?thesis
    unfolding set_src
    by (simp add: in_ms groups_lit) (elim exE conjE disjE; simp; blast?)
qed

lemma check_init: "replicate (Suc (ngroups (groups (source check_re)))) Undefined =
    [Undefined, Undefined, Undefined, Undefined]"
  by code_simp

lemma check_src: "source check_re = Seq Bol (seqs [Group 1 (Alt (lit ''check'') (lit ''uncheck'')),
       Opt (Group 2 (lit '' field'')), Chr CHR '' '', Group 3 (one_or_more Dot), Eol])"
    "ignoreCase check_re = True"
  by (simp_all add: check_re_def)

lemma check_re_sound:
  assumes "str_match s check_re = Some m"
  shows "\<exists>w q d v g2.
     s = w @ q @ d # v \<and> m = [Str s, Str w, g2, Str v] \<and>
     (ci_eq True w ''check'' \<or> ci_eq True w ''uncheck'') \<and>
     (q = [] \<and> g2 = Undefined \<or> g2 = Str q \<and> ci_eq True q '' field'') \<and>
     canonicalize True d = canonicalize True CHR '' '' \<and> v \<noteq> [] \<and> (\<forall>c\<in>set v. \<not> is_line_terminator c)"
proof -
  have "attempt True (source check_re) 0 s = Some m"
    using assms exec_Bol[OF check_src(1), of s] by (simp add: str_match_def check_src(2))
  from attempt_Some[OF this] obtain q r' cs where
    y: "(q, r', cs) \<in> set (ms True (source check_re) (0, s, [Undefined, Undefined, Undefined, Undefined]))"
    and m: "m = cs[0 := Str (take q s)]"
    unfolding check_init by auto
  from y m show ?thesis
    unfolding check_src
    by (simp add: in_ms groups_lit) (elim exE conjE disjE; simp; blast?)
qed

lemma first_is_unique: "first_is ic c s \<Longrightarrow> first_is ic c' s \<Longrightarrow> canonicalize ic c = canonicalize ic c'"
  unfolding first_is_def by (cases s) auto

lemma click_first: "test click_re s \<Longrightarrow> first_is True CHR ''c'' s"
  using click_re_sound ci_eq_first by (blast dest: test_Some)

lemma set_first: "test set_re s \<Longrightarrow> first_is True CHR ''s'' s"
  using set_re_sound ci_eq_first by (blast dest: test_Some)

lemma check_first: "test check_re s \<Longrightarrow> first_is True CHR ''c'' s \<or> first_is True CHR ''u'' s"
  using check_re_sound ci_eq_first by (blast dest: test_Some)

lemma wait_first: "test wait_re s \<Longrightarrow> first_is True CHR ''w'' s"
  using wait_re_sound ci_eq_first by (blast dest: test_Some)

lemma canon_distinct:
  "canonicalize True CHR ''w'' \<noteq> canonicalize True CHR ''c''"
  "canonicalize True CHR ''w'' \<noteq> canonicalize True CHR ''s''"
  "canonicalize True CHR ''w'' \<noteq> canonicalize True CHR ''u''"
  "canonicalize True CHR ''s'' \<noteq> canonicalize True CHR ''c''"
  by code_simp+

lemma wait_not_others: "test wait_re s \<Longrightarrow> \<not> test click_re s \<and> \<not> test set_re s \<and> \<not> test check_re s"
  using canon_distinct by (blast dest: wait_first click_first set_first check_first first_is_unique)

lemma set_not_click: "test set_re s \<Longrightarrow> \<not> test click_re s"
  using canon_distinct by (blast dest: click_first set_first first_is_unique)

section \<open>Dispatch on the built-in registry\<close>

text \<open>
  A command string that the pattern of set-field-value or of wait-for-url matches starts
  with a letter that the patterns before it in the registry do not start with, so the
  first match of the built-in registry is that action.
\<close>

lemma runAction_found:
  "find (\<lambda>a. test (match a) s) acts = Some a \<Longrightarrow>
   runAction acts page s tr =
     (case run a page (str_match s (match a)) (tr @ [Debug (''Running action: '' @ s)]) of
        (Inl e, tr1) \<Rightarrow> (Inl e, tr1)
      | (Inr u, tr1) \<Rightarrow> (Inr (), tr1 @ [Debug complete_msg]))"
  unfolding runAction_def log_debug_def running_msg_def by simp

lemma str_match_test: "str_match s re = Some m \<Longrightarrow> test re s"
  by (simp add: str_match_def test_def)

lemma find_click: "test click_re s \<Longrightarrow>
  find (\<lambda>a. test (match a) s) actions = Some \<lparr>name = ''click-element'', match = click_re, run = click_run\<rparr>"
  by (simp add: actions_def)

lemma find_set: "test set_re s \<Longrightarrow>
  find (\<lambda>a. test (match a) s) actions = Some \<lparr>name = ''set-field-value'', match = set_re, run = set_run\<rparr>"
  using set_not_click[of s] by (simp add: actions_def)

lemma find_check: "test check_re s \<Longrightarrow> \<not> test click_re s \<Longrightarrow> \<not> test set_re s \<Longrightarrow>
  find (\<lambda>a. test (match a) s) actions = Some \<lparr>name = ''check-field'', match = check_re, run = check_run\<rparr>"
  by (simp add: actions_def)

lemma find_wait: "test wait_re s \<Longrightarrow>
  find (\<lambda>a. test (match a) s) actions = Some \<lparr>name = ''wait-for-url'', match = wait_re, run = wait_run\<rparr>"
  using wait_not_others[of s] by (simp add: actions_def)

lemma runAction_click:
  assumes "str_match s click_re = Some m"
  shows "runAction actions page s tr =
     (let tr1 = tr @ [Debug (''Running action: '' @ s)]
      in case page tr1 (Click (js_nth m 2)) of
           Some e \<Rightarrow> (Inl (NewError (no_element_msg (js_nth m 2))), tr1 @ [Call (Click (js_nth m 2))])
         | None \<Rightarrow> (Inr (), tr1 @ [Call (Click (js_nth m 2)), Debug complete_msg]))"
  using assms runAction_found[OF find_click[OF str_match_test[OF assms]], of page tr]
  by (simp add: click_run_def page_call_def Let_def split: option.splits)

lemma runAction_set:
  assumes "str_match s set_re = Some m"
  shows "runAction actions page s tr =
     (let tr1 = tr @ [Debug (''Running action: '' @ s)];
          tr2 = tr1 @ [Call (Focus (js_nth m 2))]
      in case page tr1 (Focus (js_nth m 2)) of
           Some e \<Rightarrow> (Inl (NewError (no_element_msg (js_nth m 2))), tr2)
         | None \<Rightarrow>
            (case page tr2 (Type (js_nth m 3)) of
               Some e \<Rightarrow> (Inl (NewError (no_element_msg (js_nth m 2))), tr2 @ [Call (Type (js_nth m 3))])
             | None \<Rightarrow> (Inr (), tr2 @ [Call (Type (js_nth m 3)), Debug complete_msg])))"
  using assms runAction_found[OF find_set[OF str_match_test[OF assms]], of page tr]
  by (simp add: set_run_def page_call_def Let_def split: option.splits)

lemma runAction_check:
  assumes "str_match s check_re = Some m" and "\<not> test click_re s" and "\<not> test set_re s"
  shows "runAction actions page s tr =
     (let tr1 = tr @ [Debug (''Running action: '' @ s)];
          c = Evaluate CheckFn (js_nth m 3) (js_nth m 1 \<noteq> Str ''uncheck'')
      in case page tr1 c of
           Some e \<Rightarrow> (Inl (NewError (no_element_msg (js_nth m 3))), tr1 @ [Call c])
         | None \<Rightarrow> (Inr (), tr1 @ [Call c, Debug complete_msg]))"
  using assms runAction_found[OF find_check[OF str_match_test[OF assms(1)] assms(2,3)], of page tr]
  by (simp add: check_run_def page_call_def Let_def split: option.splits)

lemma runAction_wait:
  assumes "str_match s wait_re = Some m"
  shows "runAction actions page s tr =
     (let tr1 = tr @ [Debug (''Running action: '' @ s)];
          c = WaitForFunction WaitFn (Str (wait_property (js_nth m 1))) (js_nth m 4) (js_nth m 3 \<noteq> Undefined)
      in case page tr1 c of
           Some e \<Rightarrow> (Inl (Thrown e), tr1 @ [Call c])
         | None \<Rightarrow> (Inr (), tr1 @ [Call c, Debug complete_msg]))"
  using assms runAction_found[OF find_wait[OF str_match_test[OF assms]], of page tr]
  by (simp add: wait_run_def page_call_def Let_def split: option.splits)

text \<open>
  What wait-for-url polls, for every command string that its pattern matches: the first
  capture is the subject keyword as the command string spells it, and the property is
  chosen by comparing it with the lower-case keywords.
\<close>

lemma wait_property_of_capture:
  assumes "str_match s wait_re = Some m"
  shows "\<exists>subject.
     js_nth m 1 = Str subject \<and>
     (ci_eq True subject ''fragment'' \<or> ci_eq True subject ''hash'' \<or>
      ci_eq True subject ''path'' \<or> ci_eq True subject ''url'') \<and>
     runAction actions page s tr =
       (let tr1 = tr @ [Debug (''Running action: '' @ s)];
            c = WaitForFunction WaitFn
                  (Str (if subject = ''fragment'' \<or> subject = ''hash'' then ''hash''
                        else if subject = ''path'' then ''pathname''
                        else ''href''))
                  (js_nth m 4) (js_nth m 3 \<noteq> Undefined)
        in case page tr1 c of
             Some e \<Rightarrow> (Inl (Thrown e), tr1 @ [Call c])
           | None \<Rightarrow> (Inr (), tr1 @ [Call c, Debug complete_msg]))"
proof -
  from wait_re_sound[OF assms] obtain subject g2 g3 v where
    m: "m = [Str s, Str subject, g2, g3, Str v]"
    and subj: "ci_eq True subject ''fragment'' \<or> ci_eq True subject ''hash'' \<or>
      ci_eq True subject ''path'' \<or> ci_eq True subject ''url''"
    by blast
  from m have 1: "js_nth m 1 = Str subject"
    by (simp add: js_nth_def)
  then have "wait_property (js_nth m 1) =
     (if subject = ''fragment'' \<or> subject = ''hash'' then ''hash''
      else if subject = ''path'' then ''pathname'' else ''href'')"
    by (simp add: wait_property_def)
  with runAction_wait[OF assms, of page tr] 1 subj show ?thesis
    by simp
qed

section \<open>The claims\<close>

text \<open>
  C1. For every registry and every command string that no registered pattern matches,
  \<open>runAction\<close> fails with a new error whose message is
  \<^verbatim>\<open>Failed action: "<commandString>" cannot be resolved\<close>, with the command string as it
  is, and returns the trace it started with: no handler has run, no page method was called
  and nothing was logged.
\<close>

theorem runAction_unresolved:
  assumes "\<forall>a\<in>set acts. \<not> test (match a) s"
  shows "runAction acts page s tr =
    (Inl (NewError (''Failed action: \"'' @ s @ ''\" cannot be resolved'')), tr)"
proof -
  from assms have "find (\<lambda>a. test (match a) s) acts = None"
    by (simp add: find_None_iff)
  then show ?thesis
    by (simp add: runAction_def unresolved_msg_def)
qed

theorem runAction_unresolved_witness:
  "\<not> (\<exists>a\<in>set (actions :: unit action list). test (match a) ''baz 123'') \<and>
   runAction actions (\<lambda>tr c. None :: unit option) ''baz 123'' [] =
     (Inl (NewError ''Failed action: \"baz 123\" cannot be resolved''), [])"
proof -
  have "\<not> test click_re ''baz 123''" "\<not> test set_re ''baz 123''"
    "\<not> test check_re ''baz 123''" "\<not> test wait_re ''baz 123''"
    by code_simp+
  then have h: "\<forall>a\<in>set (actions :: unit action list). \<not> test (match a) ''baz 123''"
    by (simp add: actions_def)
  from runAction_unresolved[OF h, of "\<lambda>tr c. None" "[]"] h show ?thesis by simp
qed

text \<open>
  C2. Registry order is precedence. When \<open>a\<close> is the first action of the registry whose
  pattern matches the command string then, whatever actions follow it and whether or not
  their patterns match too, \<open>runAction\<close> does what the handler of \<open>a\<close> does when it is given
  the captures of matching the command string against the pattern of \<open>a\<close>, between the
  two log messages. In the example two patterns match and the earlier one runs.
\<close>

theorem runAction_first_match:
  assumes "acts = pre @ a # post"
    and "\<forall>b\<in>set pre. \<not> test (match b) s"
    and "test (match a) s"
  shows "\<exists>captures. str_match s (match a) = Some captures \<and>
    runAction acts page s tr =
     (case run a page (Some captures) (tr @ [Debug (''Running action: '' @ s)]) of
        (Inl e, tr1) \<Rightarrow> (Inl e, tr1)
      | (Inr u, tr1) \<Rightarrow> (Inr (), tr1 @ [Debug complete_msg]))"
proof -
  from assms(2) have "find (\<lambda>a. test (match a) s) pre = None"
    by (simp add: find_None_iff)
  with assms(1,3) have f: "find (\<lambda>a. test (match a) s) acts = Some a"
    by (induction pre arbitrary: acts) auto
  from assms(3) obtain captures where c: "str_match s (match a) = Some captures"
    using test_Some by blast
  from runAction_found[OF f, of page tr] c show ?thesis by simp
qed

theorem runAction_first_match_witness:
  "(stub_registry :: unit action list) = [stub_foo] @ stub_bar # [stub_ba] \<and>
   \<not> test (match (stub_foo :: unit action)) ''bar 123'' \<and>
   test (match (stub_bar :: unit action)) ''bar 123'' \<and>
   test (match (stub_ba :: unit action)) ''bar 123'' \<and>
   runAction stub_registry (\<lambda>tr c. None :: unit option) ''bar 123'' [] =
     (Inr (), [Debug ''Running action: bar 123'', Debug ''bar: bar'', Debug complete_msg])"
proof -
  have r: "(stub_registry :: unit action list) = [stub_foo] @ stub_bar # [stub_ba]"
    by (simp add: stub_registry_def)
  have foo: "\<not> test (match (stub_foo :: unit action)) ''bar 123''"
    by code_simp
  then have foo': "\<forall>b\<in>set [stub_foo :: unit action]. \<not> test (match b) ''bar 123''"
    by simp
  have bar: "test (match (stub_bar :: unit action)) ''bar 123''"
    by code_simp
  have ba: "test (match (stub_ba :: unit action)) ''bar 123''"
    by code_simp
  have c: "str_match ''bar 123'' (match (stub_bar :: unit action)) = Some [Str ''bar'']"
    by code_simp
  have "run (stub_bar :: unit action) = stub_run ''bar''"
    by (simp add: stub_bar_def)
  with runAction_first_match[OF r foo' bar, of "\<lambda>tr c. None" "[]"] c
  have "runAction stub_registry (\<lambda>tr c. None :: unit option) ''bar 123'' [] =
     (Inr (), [Debug ''Running action: bar 123'', Debug ''bar: bar'', Debug complete_msg])"
    by (simp add: stub_run_def js_nth_def)
  with r foo bar ba show ?thesis by blast
qed

text \<open>
  C3. The pattern of check-field matches \<^verbatim>\<open>uncheck\<close> in any letter case, but the
  handler compares the captured word with the lower-case \<^verbatim>\<open>'uncheck'\<close> only. For the
  command \<^verbatim>\<open>UNCHECK field .agree\<close> the captured word is \<^verbatim>\<open>UNCHECK\<close> and the in-page
  function is called with \<open>checked = True\<close>: the field is checked, not unchecked. The same
  command in lower case calls it with \<open>checked = False\<close>.
\<close>

theorem check_field_uncheck_upper_case:
  "str_match ''UNCHECK field .agree'' check_re =
     Some [Str ''UNCHECK field .agree'', Str ''UNCHECK'', Str '' field'', Str ''.agree''] \<and>
   runAction actions page ''UNCHECK field .agree'' tr =
     (let tr1 = tr @ [Debug ''Running action: UNCHECK field .agree''];
          c = Evaluate CheckFn (Str ''.agree'') True
      in case page tr1 c of
           Some e \<Rightarrow> (Inl (NewError ''Failed action: no element matching selector \".agree\"''),
                      tr1 @ [Call c])
         | None \<Rightarrow> (Inr (), tr1 @ [Call c, Debug complete_msg])) \<and>
   str_match ''uncheck field .agree'' check_re =
     Some [Str ''uncheck field .agree'', Str ''uncheck'', Str '' field'', Str ''.agree''] \<and>
   runAction actions page' ''uncheck field .agree'' tr' =
     (let tr1 = tr' @ [Debug ''Running action: uncheck field .agree''];
          c = Evaluate CheckFn (Str ''.agree'') False
      in case page' tr1 c of
           Some e \<Rightarrow> (Inl (NewError ''Failed action: no element matching selector \".agree\"''),
                      tr1 @ [Call c])
         | None \<Rightarrow> (Inr (), tr1 @ [Call c, Debug complete_msg]))"
proof -
  have m: "str_match ''UNCHECK field .agree'' check_re =
     Some [Str ''UNCHECK field .agree'', Str ''UNCHECK'', Str '' field'', Str ''.agree'']"
    by code_simp
  have n: "\<not> test click_re ''UNCHECK field .agree''" "\<not> test set_re ''UNCHECK field .agree''"
    by code_simp+
  have m': "str_match ''uncheck field .agree'' check_re =
     Some [Str ''uncheck field .agree'', Str ''uncheck'', Str '' field'', Str ''.agree'']"
    by code_simp
  have n': "\<not> test click_re ''uncheck field .agree''" "\<not> test set_re ''uncheck field .agree''"
    by code_simp+
  from runAction_check[OF m n, of page tr] runAction_check[OF m' n', of page' tr'] m m'
  show ?thesis
    by (simp add: js_nth_def no_element_msg_def Let_def split: option.splits)
qed

text \<open>
  C4. The pattern of wait-for-url matches the subject keyword in any letter case, but the
  handler compares the captured keyword with the lower-case literals only. For the command
  \<^verbatim>\<open>wait for PATH to be /done\<close> the captured keyword is \<^verbatim>\<open>PATH\<close>, the \<^verbatim>\<open>switch\<close> takes its
  default, and the property that is polled is \<^verbatim>\<open>href\<close>, not \<^verbatim>\<open>pathname\<close>; likewise
  \<^verbatim>\<open>wait for Hash #top\<close> polls \<^verbatim>\<open>href\<close>, not \<^verbatim>\<open>hash\<close>. The first command in lower case
  polls \<^verbatim>\<open>pathname\<close>.
\<close>

theorem wait_for_url_upper_case_keyword:
  "str_match ''wait for PATH to be /done'' wait_re =
     Some [Str ''wait for PATH to be /done'', Str ''PATH'', Str '' to be'', Undefined,
           Str ''/done''] \<and>
   runAction actions page ''wait for PATH to be /done'' tr =
     (let tr1 = tr @ [Debug ''Running action: wait for PATH to be /done''];
          c = WaitForFunction WaitFn (Str ''href'') (Str ''/done'') False
      in case page tr1 c of
           Some e \<Rightarrow> (Inl (Thrown e), tr1 @ [Call c])
         | None \<Rightarrow> (Inr (), tr1 @ [Call c, Debug complete_msg])) \<and>
   str_match ''wait for Hash #top'' wait_re =
     Some [Str ''wait for Hash #top'', Str ''Hash'', Undefined, Undefined, Str ''#top''] \<and>
   runAction actions page'' ''wait for Hash #top'' tr'' =
     (let tr1 = tr'' @ [Debug ''Running action: wait for Hash #top''];
          c = WaitForFunction WaitFn (Str ''href'') (Str ''#top'') False
      in case page'' tr1 c of
           Some e \<Rightarrow> (Inl (Thrown e), tr1 @ [Call c])
         | None \<Rightarrow> (Inr (), tr1 @ [Call c, Debug complete_msg])) \<and>
   str_match ''wait for path to be /done'' wait_re =
     Some [Str ''wait for path to be /done'', Str ''path'', Str '' to be'', Undefined,
           Str ''/done''] \<and>
   runAction actions page' ''wait for path to be /done'' tr' =
     (let tr1 = tr' @ [Debug ''Running action: wait for path to be /done''];
          c = WaitForFunction WaitFn (Str ''pathname'') (Str ''/done'') False
      in case page' tr1 c of
           Some e \<Rightarrow> (Inl (Thrown e), tr1 @ [Call c])
         | None \<Rightarrow> (Inr (), tr1 @ [Call c, Debug complete_msg]))"
proof -
  have m: "str_match ''wait for PATH to be /done'' wait_re =
     Some [Str ''wait for PATH to be /done'', Str ''PATH'', Str '' to be'', Undefined,
           Str ''/done'']"
    by code_simp
  have h: "str_match ''wait for Hash #top'' wait_re =
     Some [Str ''wait for Hash #top'', Str ''Hash'', Undefined, Undefined, Str ''#top'']"
    by code_simp
  have m': "str_match ''wait for path to be /done'' wait_re =
     Some [Str ''wait for path to be /done'', Str ''path'', Str '' to be'', Undefined,
           Str ''/done'']"
    by code_simp
  from runAction_wait[OF m, of page tr] runAction_wait[OF h, of page'' tr'']
    runAction_wait[OF m', of page' tr'] m h m'
  show ?thesis
    by (simp add: js_nth_def wait_property_def Let_def split: option.splits)
qed

text \<open>
  C5. When the click of click-element is rejected, when the focus of set-field-value is
  rejected, and when its focus resolves and its type is rejected, the handler rejects with
  a new error whose message is
  \<^verbatim>\<open>Failed action: no element matching selector "<selector>"\<close> with the captured
  selector; the error \<open>e\<close> of the page is not part of the result.
\<close>

theorem selector_failure_message:
  "(page tr (Click (js_nth m 2)) = Some e \<longrightarrow>
      click_run page (Some m) tr =
        (Inl (NewError (''Failed action: no element matching selector \"'' @ to_string (js_nth m 2)
                 @ ''\"'')),
         tr @ [Call (Click (js_nth m 2))])) \<and>
   (page tr (Focus (js_nth m 2)) = Some e \<longrightarrow>
      set_run page (Some m) tr =
        (Inl (NewError (''Failed action: no element matching selector \"'' @ to_string (js_nth m 2)
                 @ ''\"'')),
         tr @ [Call (Focus (js_nth m 2))])) \<and>
   (page tr (Focus (js_nth m 2)) = None \<and>
    page (tr @ [Call (Focus (js_nth m 2))]) (Type (js_nth m 3)) = Some e \<longrightarrow>
      set_run page (Some m) tr =
        (Inl (NewError (''Failed action: no element matching selector \"'' @ to_string (js_nth m 2)
                 @ ''\"'')),
         tr @ [Call (Focus (js_nth m 2)), Call (Type (js_nth m 3))]))"
  by (simp add: click_run_def set_run_def page_call_def no_element_msg_def Let_def)

theorem selector_failure_message_witness:
  "click_run (\<lambda>tr c. Some ''click error'') (Some [Str ''click .foo'', Undefined, Str ''.foo'']) [] =
     (Inl (NewError ''Failed action: no element matching selector \".foo\"''),
      [Call (Click (Str ''.foo''))]) \<and>
   set_run (\<lambda>tr c. Some ''focus error'')
       (Some [Str ''set field .user to alice'', Str '' field'', Str ''.user'', Str ''alice'']) [] =
     (Inl (NewError ''Failed action: no element matching selector \".user\"''),
      [Call (Focus (Str ''.user''))]) \<and>
   set_run (\<lambda>tr c. case c of Type v \<Rightarrow> Some ''type error'' | _ \<Rightarrow> None)
       (Some [Str ''set field .user to alice'', Str '' field'', Str ''.user'', Str ''alice'']) [] =
     (Inl (NewError ''Failed action: no element matching selector \".user\"''),
      [Call (Focus (Str ''.user'')), Call (Type (Str ''alice''))])"
  using selector_failure_message[of "\<lambda>tr c. Some ''click error''" "[]"
      "[Str ''click .foo'', Undefined, Str ''.foo'']" "''click error''"]
    selector_failure_message[of "\<lambda>tr c. Some ''focus error''" "[]"
      "[Str ''set field .user to alice'', Str '' field'', Str ''.user'', Str ''alice'']" "''focus error''"]
    selector_failure_message[of "\<lambda>tr c. case c of Type v \<Rightarrow> Some ''type error'' | _ \<Rightarrow> None" "[]"
      "[Str ''set field .user to alice'', Str '' field'', Str ''.user'', Str ''alice'']" "''type error''"]
  by (simp add: js_nth_def)

text \<open>
  C6. When the handler that is found rejects with an error, \<open>runAction\<close> rejects with that
  very error and the trace the handler left (the completion message is not logged). The
  handler of wait-for-url passes the error of \<^verbatim>\<open>page.waitForFunction\<close> on as it is, so
  for a command string that the wait-for-url pattern matches, the caller of \<open>runAction\<close> on
  the built-in registry gets the error object of the page itself.
\<close>

theorem handler_error_passed_on:
  "(find (\<lambda>a. test (match a) s) acts = Some a \<and>
    run a page (str_match s (match a)) (tr @ [Debug (''Running action: '' @ s)]) = (Inl err, tr')
      \<longrightarrow> runAction acts page s tr = (Inl err, tr')) \<and>
   (str_match s' wait_re = Some m \<and>
    page' (tr @ [Debug (''Running action: '' @ s')])
       (WaitForFunction WaitFn (Str (wait_property (js_nth m 1))) (js_nth m 4)
          (js_nth m 3 \<noteq> Undefined)) = Some e
      \<longrightarrow> runAction actions page' s' tr =
            (Inl (Thrown e),
             tr @ [Debug (''Running action: '' @ s'),
                   Call (WaitForFunction WaitFn (Str (wait_property (js_nth m 1))) (js_nth m 4)
                          (js_nth m 3 \<noteq> Undefined))]))"
proof (intro conjI impI)
  assume "find (\<lambda>a. test (match a) s) acts = Some a \<and>
    run a page (str_match s (match a)) (tr @ [Debug (''Running action: '' @ s)]) = (Inl err, tr')"
  then show "runAction acts page s tr = (Inl err, tr')"
    using runAction_found[of s acts a page tr] by simp
next
  assume a: "str_match s' wait_re = Some m \<and>
    page' (tr @ [Debug (''Running action: '' @ s')])
       (WaitForFunction WaitFn (Str (wait_property (js_nth m 1))) (js_nth m 4)
          (js_nth m 3 \<noteq> Undefined)) = Some e"
  then have "str_match s' wait_re = Some m" by simp
  from runAction_wait[OF this, of page' tr] a
  show "runAction actions page' s' tr =
            (Inl (Thrown e),
             tr @ [Debug (''Running action: '' @ s'),
                   Call (WaitForFunction WaitFn (Str (wait_property (js_nth m 1))) (js_nth m 4)
                          (js_nth m 3 \<noteq> Undefined))])"
    by (simp add: Let_def)
qed

theorem handler_error_passed_on_witness:
  "find (\<lambda>a. test (match a) ''bar 123'')
      [stub_foo, stub_bar\<lparr>run := stub_reject ''action-runner-error''\<rparr>] =
     Some (stub_bar\<lparr>run := stub_reject ''action-runner-error''\<rparr>) \<and>
   runAction [stub_foo, stub_bar\<lparr>run := stub_reject ''action-runner-error''\<rparr>]
       (\<lambda>tr c. None) ''bar 123'' [] =
     (Inl (Thrown ''action-runner-error''), [Debug ''Running action: bar 123'']) \<and>
   str_match ''wait for url to be https://example.com/'' wait_re =
     Some [Str ''wait for url to be https://example.com/'', Str ''url'', Str '' to be'', Undefined,
           Str ''https://example.com/''] \<and>
   runAction actions (\<lambda>tr c. Some ''timeout'') ''wait for url to be https://example.com/'' [] =
     (Inl (Thrown ''timeout''),
      [Debug ''Running action: wait for url to be https://example.com/'',
       Call (WaitForFunction WaitFn (Str ''href'') (Str ''https://example.com/'') False)])"
proof -
  have "\<not> test (match (stub_foo :: string action)) ''bar 123''"
    and "test (match (stub_bar :: string action)) ''bar 123''"
    by code_simp+
  then have f: "find (\<lambda>a. test (match a) ''bar 123'')
      [stub_foo, stub_bar\<lparr>run := stub_reject ''action-runner-error''\<rparr>] =
     Some (stub_bar\<lparr>run := stub_reject ''action-runner-error''\<rparr>)"
    by simp
  have h: "str_match ''wait for url to be https://example.com/'' wait_re =
     Some [Str ''wait for url to be https://example.com/'', Str ''url'', Str '' to be'', Undefined,
           Str ''https://example.com/'']"
    by code_simp
  note t = handler_error_passed_on[of "''bar 123''"
      "[stub_foo, stub_bar\<lparr>run := stub_reject ''action-runner-error''\<rparr>]"
      "stub_bar\<lparr>run := stub_reject ''action-runner-error''\<rparr>" "\<lambda>tr c. None" "[]"
      "Thrown ''action-runner-error''" "[Debug ''Running action: bar 123'']"
      "''wait for url to be https://example.com/''"
      "[Str ''wait for url to be https://example.com/'', Str ''url'', Str '' to be'', Undefined,
           Str ''https://example.com/'']" "\<lambda>tr c. Some ''timeout''" "''timeout''"]
  from t f have a: "runAction [stub_foo, stub_bar\<lparr>run := stub_reject ''action-runner-error''\<rparr>]
       (\<lambda>tr c. None) ''bar 123'' [] =
     (Inl (Thrown ''action-runner-error''), [Debug ''Running action: bar 123''])"
    by (simp add: stub_reject_def)
  from t h have b: "runAction actions (\<lambda>tr c. Some ''timeout'') ''wait for url to be https://example.com/'' [] =
     (Inl (Thrown ''timeout''),
      [Debug ''Running action: wait for url to be https://example.com/'',
       Call (WaitForFunction WaitFn (Str ''href'') (Str ''https://example.com/'') False)])"
    by (simp add: js_nth_def wait_property_def)
  from f a h b show ?thesis by blast
qed

text \<open>
  C7. A call of \<open>isValidAction\<close>, in any world (any registry, with any handlers, and any
  trace), returns a boolean and never an error, and leaves the world as it was: the
  registry is the same and the trace is the same, so no handler has run, no page method
  was called and nothing was logged. The boolean is true exactly when some registered
  pattern matches the command string, that is, when matching the string against it gives
  captures. A second call with the same command string returns the same boolean and again
  the same world.
\<close>

theorem isValidAction_call_pure:
  "isValidAction_call s w = (Inr (isValidAction (registry w) s), w) \<and>
   (isValidAction (registry w) s \<longleftrightarrow>
      (\<exists>a\<in>set (registry w). \<exists>m. str_match s (match a) = Some m)) \<and>
   (case isValidAction_call s w of (r, w') \<Rightarrow> isValidAction_call s w' = (r, w'))"
proof -
  have some: "js_some (\<lambda>foundAction. regexp_test (match foundAction) s) acts w =
      (Inr (list_ex (\<lambda>foundAction. test (match foundAction) s) acts), w)"
    for acts :: "'a action list" and w :: "'a world"
    by (induction acts) (simp_all add: regexp_test_def)
  have call: "isValidAction_call s v = (Inr (isValidAction (registry v) s), v)"
    for v :: "'a world"
    by (simp add: isValidAction_call_def isValidAction_def some)
  have "test re s \<longleftrightarrow> (\<exists>m. str_match s re = Some m)" for re
    by (auto simp: test_def str_match_def)
  then have iff: "isValidAction (registry w) s \<longleftrightarrow>
      (\<exists>a\<in>set (registry w). \<exists>m. str_match s (match a) = Some m)"
    by (simp add: isValidAction_def list_ex_iff)
  from call iff show ?thesis
    by simp
qed

theorem isValidAction_call_pure_witness:
  "isValidAction_call ''bar 123'' \<lparr>registry = stub_registry, trace = []\<rparr> =
     (Inr True, \<lparr>registry = stub_registry :: unit action list, trace = []\<rparr>) \<and>
   str_match ''bar 123'' (match (stub_bar :: unit action)) = Some [Str ''bar''] \<and>
   isValidAction_call ''hello bar!'' \<lparr>registry = actions, trace = [Debug ''before'']\<rparr> =
     (Inr False, \<lparr>registry = actions :: unit action list, trace = [Debug ''before'']\<rparr>) \<and>
   isValidAction_call ''click .foo'' \<lparr>registry = actions, trace = []\<rparr> =
     (Inr True, \<lparr>registry = actions :: unit action list, trace = []\<rparr>)"
proof -
  note t1 = isValidAction_call_pure[of "''bar 123''"
      "\<lparr>registry = stub_registry :: unit action list, trace = []\<rparr>"]
  note t2 = isValidAction_call_pure[of "''hello bar!''"
      "\<lparr>registry = actions :: unit action list, trace = [Debug ''before'']\<rparr>"]
  note t3 = isValidAction_call_pure[of "''click .foo''"
      "\<lparr>registry = actions :: unit action list, trace = []\<rparr>"]
  have c: "str_match ''bar 123'' (match (stub_bar :: unit action)) = Some [Str ''bar'']"
    by code_simp
  with t1 have a: "isValidAction (stub_registry :: unit action list) ''bar 123''"
    by (auto simp: stub_registry_def)
  have "str_match ''hello bar!'' click_re = None" "str_match ''hello bar!'' set_re = None"
    "str_match ''hello bar!'' check_re = None" "str_match ''hello bar!'' wait_re = None"
    by code_simp+
  with t2 have b: "\<not> isValidAction (actions :: unit action list) ''hello bar!''"
    by (simp add: actions_def)
  have "str_match ''click .foo'' click_re = Some [Str ''click .foo'', Undefined, Str ''.foo'']"
    by code_simp
  with t3 have d: "isValidAction (actions :: unit action list) ''click .foo''"
    by (auto simp: actions_def)
  from a b c d t1 t2 t3 show ?thesis
    by simp
qed

text \<open>
  C8. For every command string that the set-field-value pattern matches, the second and
  third captures are non-empty pieces of the command string, a selector and a value with
  \<^verbatim>\<open> to \<close> (in any letter case) between them. \<open>runAction\<close> on the built-in registry
  calls \<^verbatim>\<open>page.focus\<close> with the selector; if that is rejected nothing else is called; if
  it resolves, \<^verbatim>\<open>page.type\<close> is called next, with the value as its only argument.
\<close>

theorem set_field_focus_then_type:
  assumes "str_match s set_re = Some m"
  shows "\<exists>selector val pre t.
     js_nth m 2 = Str selector \<and> js_nth m 3 = Str val \<and> selector \<noteq> [] \<and> val \<noteq> [] \<and>
     s = pre @ selector @ t @ val \<and> ci_eq True t '' to '' \<and>
     runAction actions page s tr =
       (let tr1 = tr @ [Debug (''Running action: '' @ s)];
            tr2 = tr1 @ [Call (Focus (Str selector))]
        in case page tr1 (Focus (Str selector)) of
             Some e \<Rightarrow> (Inl (NewError (no_element_msg (Str selector))), tr2)
           | None \<Rightarrow>
              (case page tr2 (Type (Str val)) of
                 Some e \<Rightarrow> (Inl (NewError (no_element_msg (Str selector))),
                            tr2 @ [Call (Type (Str val))])
               | None \<Rightarrow> (Inr (), tr2 @ [Call (Type (Str val)), Debug complete_msg])))"
proof -
  from set_re_sound[OF assms] obtain w q d sel t v g1 where
    s: "s = w @ q @ d # sel @ t @ v" and m: "m = [Str s, g1, Str sel, Str v]"
    and ne: "sel \<noteq> []" "v \<noteq> []" and t: "ci_eq True t '' to ''"
    by blast
  from m have 2: "js_nth m 2 = Str sel" and 3: "js_nth m 3 = Str v"
    by (simp_all add: js_nth_def)
  from s have s': "s = (w @ q @ [d]) @ sel @ t @ v"
    by simp
  note r = runAction_set[OF assms, of page tr, unfolded 2 3]
  show ?thesis
    apply (rule exI[of _ sel], rule exI[of _ v], rule exI[of _ "w @ q @ [d]"], rule exI[of _ t])
    using 2 3 ne t s' r by blast
qed

theorem set_field_focus_then_type_witness:
  "str_match ''set field .user to alice'' set_re =
     Some [Str ''set field .user to alice'', Str '' field'', Str ''.user'', Str ''alice''] \<and>
   runAction actions (\<lambda>tr c. None :: unit option) ''set field .user to alice'' [] =
     (Inr (), [Debug ''Running action: set field .user to alice'', Call (Focus (Str ''.user'')),
               Call (Type (Str ''alice'')), Debug complete_msg]) \<and>
   runAction actions (\<lambda>tr c. Some ()) ''set field .user to alice'' [] =
     (Inl (NewError ''Failed action: no element matching selector \".user\"''),
      [Debug ''Running action: set field .user to alice'', Call (Focus (Str ''.user''))])"
proof -
  have h: "str_match ''set field .user to alice'' set_re =
     Some [Str ''set field .user to alice'', Str '' field'', Str ''.user'', Str ''alice'']"
    by code_simp
  from set_field_focus_then_type[OF h, of "\<lambda>tr c. None" "[]"]
    set_field_focus_then_type[OF h, of "\<lambda>tr c. Some ()" "[]"] h
  show ?thesis
    by (auto simp: js_nth_def no_element_msg_def)
qed

text \<open>
  C9. For every command string that the wait-for-url pattern matches, the third capture is
  \<^verbatim>\<open>undefined\<close> or a piece of the command string that reads \<^verbatim>\<open>not \<close> (in any letter
  case); the negation flag given to \<^verbatim>\<open>page.waitForFunction\<close> is true exactly when that
  capture is not \<^verbatim>\<open>undefined\<close>; and the function that is polled returns
  \<^verbatim>\<open>(value === expected) !== negated\<close> for the value of the location property.
\<close>

theorem wait_for_url_negation:
  assumes "str_match s wait_re = Some m"
  shows "(js_nth m 3 = Undefined \<or>
            (\<exists>pre n post. js_nth m 3 = Str n \<and> ci_eq True n ''not '' \<and> s = pre @ n @ post)) \<and>
     runAction actions page s tr =
       (let tr1 = tr @ [Debug (''Running action: '' @ s)];
            c = WaitForFunction WaitFn (Str (wait_property (js_nth m 1))) (js_nth m 4)
                  (js_nth m 3 \<noteq> Undefined)
        in case page tr1 c of
             Some e \<Rightarrow> (Inl (Thrown e), tr1 @ [Call c])
           | None \<Rightarrow> (Inr (), tr1 @ [Call c, Debug complete_msg])) \<and>
     (\<forall>location property expected negated.
        wait_fn location property expected negated =
          ((location property = expected) \<noteq> negated))"
proof -
  from wait_re_sound[OF assms] obtain w subject q d v g2 g3 where
    s: "s = w @ subject @ q @ d # v" and m: "m = [Str s, Str subject, g2, g3, Str v]"
    and q: "q = [] \<and> g2 = Undefined \<and> g3 = Undefined \<or>
      g2 = Str q \<and> (\<exists>t n b. q = t @ n @ b \<and> ci_eq True t '' to '' \<and> ci_eq True b ''be'' \<and>
         (n = [] \<and> g3 = Undefined \<or> g3 = Str n \<and> ci_eq True n ''not ''))"
    by blast
  from m have 3: "js_nth m 3 = g3"
    by (simp add: js_nth_def)
  have a: "g3 = Undefined \<or> (\<exists>pre n post. g3 = Str n \<and> ci_eq True n ''not '' \<and> s = pre @ n @ post)"
  proof (cases "g3 = Undefined")
    case True
    then show ?thesis by simp
  next
    case False
    with q obtain t n b where "q = t @ n @ b" "g3 = Str n" "ci_eq True n ''not ''"
      by auto
    with s have "g3 = Str n \<and> ci_eq True n ''not '' \<and> s = (w @ subject @ t) @ n @ (b @ d # v)"
      by simp
    then show ?thesis by blast
  qed
  have b: "wait_fn location property expected negated = ((location property = expected) \<noteq> negated)"
    for location :: "jsval \<Rightarrow> jsval" and property expected negated
    by (simp add: wait_fn_def)
  from a 3 b runAction_wait[OF assms, of page tr] show ?thesis
    by simp
qed

theorem wait_for_url_negation_witness:
  "str_match ''wait for hash to not be #menu'' wait_re =
     Some [Str ''wait for hash to not be #menu'', Str ''hash'', Str '' to not be'', Str ''not '',
           Str ''#menu''] \<and>
   runAction actions (\<lambda>tr c. None :: unit option) ''wait for hash to not be #menu'' [] =
     (Inr (), [Debug ''Running action: wait for hash to not be #menu'',
               Call (WaitForFunction WaitFn (Str ''hash'') (Str ''#menu'') True),
               Debug complete_msg]) \<and>
   \<not> wait_fn (\<lambda>p. Str ''#menu'') (Str ''hash'') (Str ''#menu'') True \<and>
   wait_fn (\<lambda>p. Str ''#top'') (Str ''hash'') (Str ''#menu'') True"
proof -
  have h: "str_match ''wait for hash to not be #menu'' wait_re =
     Some [Str ''wait for hash to not be #menu'', Str ''hash'', Str '' to not be'', Str ''not '',
           Str ''#menu'']"
    by code_simp
  from wait_for_url_negation[OF h, of "\<lambda>tr c. None :: unit option" "[]"]
  have r: "runAction actions (\<lambda>tr c. None :: unit option) ''wait for hash to not be #menu'' [] =
     (Inr (), [Debug ''Running action: wait for hash to not be #menu'',
               Call (WaitForFunction WaitFn (Str ''hash'') (Str ''#menu'') True),
               Debug complete_msg])"
    and f: "\<forall>location property expected negated.
        wait_fn location property expected negated =
          ((location property = expected) \<noteq> negated)"
    by (auto simp add: js_nth_def wait_property_def)
  from f have "\<not> wait_fn (\<lambda>p. Str ''#menu'') (Str ''hash'') (Str ''#menu'') True"
    and "wait_fn (\<lambda>p. Str ''#top'') (Str ''hash'') (Str ''#menu'') True"
    by simp_all
  with h r show ?thesis by blast
qed

text \<open>
  C10. The optional qualifier can be left unmatched, so \<^verbatim>\<open>click element\<close> is a valid
  action that clicks the selector \<^verbatim>\<open>element\<close>, and \<^verbatim>\<open>check field\<close> is a valid action
  that sets \<open>checked = True\<close> on the selector \<^verbatim>\<open>field\<close>; neither fails as unresolved.
\<close>

theorem qualifier_word_taken_as_selector:
  "isValidAction actions ''click element'' \<and>
   str_match ''click element'' click_re = Some [Str ''click element'', Undefined, Str ''element''] \<and>
   runAction actions page ''click element'' tr =
     (let tr1 = tr @ [Debug ''Running action: click element'']
      in case page tr1 (Click (Str ''element'')) of
           Some e \<Rightarrow> (Inl (NewError ''Failed action: no element matching selector \"element\"''),
                      tr1 @ [Call (Click (Str ''element''))])
         | None \<Rightarrow> (Inr (), tr1 @ [Call (Click (Str ''element'')), Debug complete_msg])) \<and>
   isValidAction actions ''check field'' \<and>
   str_match ''check field'' check_re = Some [Str ''check field'', Str ''check'', Undefined, Str ''field''] \<and>
   runAction actions page' ''check field'' tr' =
     (let tr1 = tr' @ [Debug ''Running action: check field''];
          c = Evaluate CheckFn (Str ''field'') True
      in case page' tr1 c of
           Some e \<Rightarrow> (Inl (NewError ''Failed action: no element matching selector \"field\"''),
                      tr1 @ [Call c])
         | None \<Rightarrow> (Inr (), tr1 @ [Call c, Debug complete_msg]))"
proof -
  have m1: "str_match ''click element'' click_re = Some [Str ''click element'', Undefined, Str ''element'']"
    by code_simp
  have m2: "str_match ''check field'' check_re = Some [Str ''check field'', Str ''check'', Undefined, Str ''field'']"
    by code_simp
  have n: "\<not> test click_re ''check field''" "\<not> test set_re ''check field''"
    by code_simp+
  have v1: "isValidAction actions ''click element''"
    using str_match_test[OF m1] by (simp add: isValidAction_def actions_def)
  have v2: "isValidAction actions ''check field''"
    using str_match_test[OF m2] by (simp add: isValidAction_def actions_def)
  from runAction_click[OF m1, of page tr] runAction_check[OF m2 n, of page' tr'] m1 m2 v1 v2
  show ?thesis
    by (simp add: js_nth_def no_element_msg_def Let_def split: option.splits)
qed

end
